theory Spec2Isabelle
  imports Main
begin

section \<open>Coordinate mapper\<close>

text \<open>
  The bot object of \<^verbatim>\<open>linkedin-zip-bot.js\<close>, restricted to the two fields the replay
  reads. Cell identifiers and the grid size are JavaScript numbers, that is IEEE 754
  doubles; the model takes the integers among them, so an \<open>int\<close> here stands for a double
  of that value.
\<close>

record bot =
  gridSize :: int
  solution :: "int list"

record coords =
  row :: int
  col :: int

text \<open>The number of binary digits of a natural number.\<close>

fun bits :: "nat \<Rightarrow> nat" where
  "bits n = (if n = 0 then 0 else Suc (bits (n div 2)))"

declare bits.simps [simp del]

text \<open>
  An integer is a double when it fits in 53 significant binary digits (and in the
  exponent range).
\<close>

definition exact_double :: "int \<Rightarrow> bool" where
  "exact_double n =
     (let l = bits (nat \<bar>n\<bar>)
      in l \<le> 53 \<or> (l \<le> 1024 \<and> \<bar>n\<bar> mod 2 ^ (l - 53) = 0))"

text \<open>
  The quotient \<open>n / d\<close> of a non-negative by a positive integer, rounded to the nearest
  integer, a tie going to the even one.
\<close>

definition round_half_even :: "int \<Rightarrow> int \<Rightarrow> int" where
  "round_half_even n d =
     (let q = n div d; r = n mod d
      in if 2 * r < d then q
         else if d < 2 * r then q + 1
         else if even q then q else q + 1)"

text \<open>
  \<^verbatim>\<open>Math.floor(a / b)\<close> for integers \<open>a\<close> and \<open>b \<noteq> 0\<close> that are doubles. The division
  is that of doubles: the exact quotient is rounded to 53 significant binary digits, a tie
  going to the even significand, and \<^verbatim>\<open>Math.floor\<close> is applied to the rounded value.
  With \<open>2\<^sup>e \<le> \<bar>a\<bar> / \<bar>b\<bar> < 2\<^sup>e\<^sup>+\<^sup>1\<close> the rounded quotient is a multiple of
  \<open>2\<^sup>e\<^sup>-\<^sup>5\<^sup>2\<close>; below, \<open>e = la - lb - c\<close>.
\<close>

definition js_floor_div :: "int \<Rightarrow> int \<Rightarrow> int" where
  "js_floor_div a b =
     (if a = 0 then 0
      else
        (let n = \<bar>a\<bar>; d = \<bar>b\<bar>;
             la = bits (nat n); lb = bits (nat d);
             c = (if d * 2 ^ la \<le> n * 2 ^ lb then 0 else 1);
             sg = sgn a * sgn b
         in if lb + 52 + c \<le> la
            then sg * (round_half_even n (d * 2 ^ (la - (lb + 52 + c)))
                        * 2 ^ (la - (lb + 52 + c)))
            else (sg * round_half_even (n * 2 ^ (lb + 52 + c - la)) d)
                   div 2 ^ (lb + 52 + c - la)))"

text \<open>
  \<^verbatim>\<open>a % b\<close>: the remainder that carries the sign of the dividend. On doubles it is
  computed without rounding.
\<close>

definition js_rem :: "int \<Rightarrow> int \<Rightarrow> int" where
  "js_rem a b = sgn a * (\<bar>a\<bar> mod \<bar>b\<bar>)"

text \<open>
  With \<^verbatim>\<open>gridSize\<close> equal to 0 the source computes \<^verbatim>\<open>NaN\<close> for the column (and
  \<^verbatim>\<open>NaN\<close> or an infinity for the row); \<open>None\<close> stands for that pair of non-finite
  numbers.
\<close>

definition indexToCoords :: "bot \<Rightarrow> int \<Rightarrow> coords option" where
  "indexToCoords b index =
     (if gridSize b = 0 then None
      else Some \<lparr>row = js_floor_div index (gridSize b), col = js_rem index (gridSize b)\<rparr>)"

datatype key = ArrowUp | ArrowDown | ArrowLeft | ArrowRight

text \<open>
  \<^verbatim>\<open>getDirection\<close> returns the key name or \<^verbatim>\<open>null\<close>. Every comparison with a
  \<^verbatim>\<open>NaN\<close> difference is false, so non-finite coordinates fall through to
  \<^verbatim>\<open>null\<close>. The difference of two integer doubles is rounded too, but it compares
  equal to -1, 0 or 1 exactly when the exact difference does, these three being doubles
  and rounding being monotone.
\<close>

definition getDirection :: "bot \<Rightarrow> int \<Rightarrow> int \<Rightarrow> key option" where
  "getDirection b fromCell toCell =
     (case (indexToCoords b fromCell, indexToCoords b toCell) of
        (Some fromCoords, Some toCoords) \<Rightarrow>
          (let rowDiff = row toCoords - row fromCoords;
               colDiff = col toCoords - col fromCoords
           in if rowDiff = - 1 \<and> colDiff = 0 then Some ArrowUp
              else if rowDiff = 1 \<and> colDiff = 0 then Some ArrowDown
              else if rowDiff = 0 \<and> colDiff = - 1 then Some ArrowLeft
              else if rowDiff = 0 \<and> colDiff = 1 then Some ArrowRight
              else None)
      | _ \<Rightarrow> None)"

section \<open>Input driver\<close>

text \<open>
  What the replay can see of the page at one moment: whether \<^verbatim>\<open>.trail-board\<close>
  matches, the \<^verbatim>\<open>data-cell-idx\<close> values of the elements that carry the attribute
  (as the integers they denote, in document order), whether \<^verbatim>\<open>[data-trail-grid]\<close>
  matches, and whether \<^verbatim>\<open>.trail-grid--game-won\<close> matches. Board, cells and grid are
  taken to be HTML elements, as on the page the bot is written for: their
  \<^verbatim>\<open>focus\<close>, \<^verbatim>\<open>click\<close> and \<^verbatim>\<open>dispatchEvent\<close> return normally, so that no
  statement of \<^verbatim>\<open>solvePuzzle\<close> throws.
\<close>

record dom =
  trail_board :: bool
  cell_idxs :: "int list"
  trail_grid :: bool
  game_won :: bool

text \<open>
  The page belongs to a third party and changes while the bot is suspended. A page is the
  sequence of its snapshots, one per suspension of the bot: code between two
  \<^verbatim>\<open>await\<close>s runs against one snapshot, and every \<^verbatim>\<open>sleep\<close> moves to the next.
\<close>

type_synonym page = "nat \<Rightarrow> dom"

datatype event = Focus | Click int | KeyDown key nat | KeyUp key nat

datatype diag =
    NoSolutionLoaded
  | BoardDidNotLoad nat
  | BoardNotFound
  | StartCellNotFound
  | InvalidMove int int
  | SequenceCompleted
  | Victory

text \<open>
  The state of a run: the clock in milliseconds (\<^verbatim>\<open>Date.now()\<close>), the number of
  suspensions so far, the input events dispatched to the page, and the error, warning and
  outcome lines written to the console. A timer is taken to fire exactly when it is due.
\<close>

record run =
  now :: nat
  tick :: nat
  events :: "event list"
  console :: "diag list"

definition sleep :: "nat \<Rightarrow> run \<Rightarrow> run" where
  "sleep ms s = s\<lparr>now := now s + ms, tick := Suc (tick s)\<rparr>"

definition dispatch :: "event list \<Rightarrow> run \<Rightarrow> run" where
  "dispatch es s = s\<lparr>events := events s @ es\<rparr>"

definition report :: "diag \<Rightarrow> run \<Rightarrow> run" where
  "report d s = s\<lparr>console := console s @ [d]\<rparr>"

definition board_ready :: "dom \<Rightarrow> bool" where
  "board_ready d = (trail_board d \<and> length (cell_idxs d) > 0)"

function waitLoop :: "page \<Rightarrow> nat \<Rightarrow> nat \<Rightarrow> run \<Rightarrow> bool \<times> run" where
  "waitLoop page startTime timeout s =
     (if now s - startTime < timeout
      then (if board_ready (page (tick s)) then (True, s)
            else waitLoop page startTime timeout (sleep 200 s))
      else (False, report (BoardDidNotLoad timeout) s))"
  by pat_completeness auto
termination
  by (relation "measure (\<lambda>(page, startTime, timeout, s). startTime + timeout - now s)")
     (auto simp: sleep_def)

declare waitLoop.simps [simp del]

definition waitForGameBoard :: "page \<Rightarrow> nat \<Rightarrow> run \<Rightarrow> bool \<times> run" where
  "waitForGameBoard page timeout s =
     (if board_ready (page (tick s)) then (True, s)
      else waitLoop page (now s) timeout s)"

definition keyCode :: "key \<Rightarrow> nat" where
  "keyCode k = (if k = ArrowUp then 38 else if k = ArrowDown then 40
                else if k = ArrowLeft then 37 else 39)"

definition simulateKeyPress :: "page \<Rightarrow> key \<Rightarrow> run \<Rightarrow> bool \<times> run" where
  "simulateKeyPress page k s =
     (if \<not> trail_grid (page (tick s)) then (False, s)
      else (True, dispatch [KeyDown k (keyCode k), KeyUp k (keyCode k)] s))"

text \<open>
  The \<^verbatim>\<open>for\<close> loop of \<^verbatim>\<open>solvePuzzle\<close> over the consecutive pairs
  \<^verbatim>\<open>solution[i - 1], solution[i]\<close>: the list argument is the part of the solution
  from index \<^verbatim>\<open>i - 1\<close> on. The result of \<^verbatim>\<open>simulateKeyPress\<close> is dropped, as in
  the source.
\<close>

fun stepLoop :: "page \<Rightarrow> bot \<Rightarrow> nat \<Rightarrow> int list \<Rightarrow> run \<Rightarrow> run" where
  "stepLoop page b speed (fromCell # toCell # rest) s =
     (case getDirection b fromCell toCell of
        None \<Rightarrow> report (InvalidMove fromCell toCell) s
      | Some direction \<Rightarrow>
          stepLoop page b speed (toCell # rest)
            (sleep speed (snd (simulateKeyPress page direction s))))"
| "stepLoop page b speed cells s = s"

definition finish :: "page \<Rightarrow> run \<Rightarrow> run" where
  "finish page s =
     (let s' = sleep 1500 (report SequenceCompleted s)
      in if game_won (page (tick s')) then report Victory s' else s')"

definition solvePuzzle :: "page \<Rightarrow> bot \<Rightarrow> nat \<Rightarrow> run \<Rightarrow> run" where
  "solvePuzzle page b speed s =
     (case solution b of
        [] \<Rightarrow> report NoSolutionLoaded s
      | startCell # _ \<Rightarrow>
          (let s1 = snd (waitForGameBoard page 10000 s)
           in if \<not> trail_board (page (tick s1)) then report BoardNotFound s1
              else
                (let s2 = sleep 200 (dispatch [Focus] s1)
                 in if startCell \<notin> set (cell_idxs (page (tick s2)))
                    then report StartCellNotFound s2
                    else
                      (let s3 = sleep 300 (dispatch [Click startCell] s2)
                       in finish page (stepLoop page b speed (solution b) s3)))))"

definition is_input :: "event \<Rightarrow> bool" where
  "is_input e = (e \<noteq> Focus)"

section \<open>Endpoint discoverer\<close>

fun startsWith :: "string \<Rightarrow> string \<Rightarrow> bool" where
  "startsWith s [] = True"
| "startsWith [] (p # ps) = False"
| "startsWith (c # cs) (p # ps) = (c = p \<and> startsWith cs ps)"

fun str_includes :: "string \<Rightarrow> string \<Rightarrow> bool" where
  "str_includes [] sub = (sub = [])"
| "str_includes (c # cs) sub = (startsWith (c # cs) sub \<or> str_includes cs sub)"

definition isGameApiUrl :: "string \<Rightarrow> bool" where
  "isGameApiUrl url =
     (str_includes url ''/voyager/api/graphql'' \<and> str_includes url ''gameTypeId:6'')"

datatype js_error = TypeError | SyntaxError | HttpError nat string | NetworkError

datatype fetch_arg = UrlString string | NotAString

text \<open>
  What calling \<^verbatim>\<open>click()\<close> on a matched element does: the page's handlers run and
  call \<^verbatim>\<open>window.fetch\<close> with the listed first arguments, or the element has no
  \<^verbatim>\<open>click\<close> method (only HTML elements have one; the selectors also match elements of
  other namespaces) and the call throws a \<^verbatim>\<open>TypeError\<close>.
\<close>

datatype click_effect = Calls "fetch_arg list" | NoClickMethod

record button =
  textContent :: string
  click_effect :: click_effect

text \<open>
  The page as discovery sees it: the names of the resource-timing entries (\<open>None\<close> when
  the Performance API throws), the platform's URL parser (path name and search of an
  absolute URL, \<open>None\<close> when \<^verbatim>\<open>new URL\<close> throws), the element matching
  \<^verbatim>\<open>[data-test-id="refresh-button"]\<close>, the elements matching \<^verbatim>\<open>button\<close> in
  document order, and the first arguments of the calls the page makes to
  \<^verbatim>\<open>window.fetch\<close> during the 3000 ms before the timer fires.
\<close>

record discovery_page =
  perf_entries :: "string list option"
  url_parse :: "string \<Rightarrow> (string \<times> string) option"
  refresh_button :: "button option"
  buttons :: "button list"
  window_calls :: "fetch_arg list"

text \<open>
  The value of \<^verbatim>\<open>window.fetch\<close>: a function of the page, or the wrapper that
  \<^verbatim>\<open>detectApiUrl\<close> builds around the function it found.
\<close>

datatype fetch_fn = PageFetch nat | Interceptor fetch_fn

datatype action = SetFetch fetch_fn | Activate string | Forwarded fetch_fn fetch_arg

record world =
  window_fetch :: fetch_fn
  apiUrl :: string
  trace :: "action list"

text \<open>The value the constructor gives \<^verbatim>\<open>this.apiUrl\<close>.\<close>

definition constructor_apiUrl :: string where
  "constructor_apiUrl = ''/voyager/api/graphql?includeWebMetadata=true&variables=(gameTypeId:6)&queryId=voyagerIdentityDashGames.b13494b14a45c551e881ca8aa820dff0''"

definition findGameApiUrl :: "discovery_page \<Rightarrow> string option" where
  "findGameApiUrl p =
     (case perf_entries p of
        None \<Rightarrow> None
      | Some perfEntries \<Rightarrow>
          (case find isGameApiUrl perfEntries of
             None \<Rightarrow> None
           | Some name \<Rightarrow>
               (case url_parse p name of
                  None \<Rightarrow> None
                | Some (pathname, search) \<Rightarrow> Some (pathname @ search))))"

text \<open>The body of the wrapper, before it forwards the call: one call, the list so far.\<close>

fun intercept :: "string list \<Rightarrow> fetch_arg \<Rightarrow> string list" where
  "intercept capturedUrls (UrlString url) =
     (if isGameApiUrl url then capturedUrls @ [url] else capturedUrls)"
| "intercept capturedUrls NotAString = capturedUrls"

text \<open>The element that lines 53 to 65 of the source choose to click, if any.\<close>

definition affordance :: "discovery_page \<Rightarrow> button option" where
  "affordance p =
     (case refresh_button p of
        Some refreshButton \<Rightarrow> Some refreshButton
      | None \<Rightarrow>
          find (\<lambda>btn. str_includes (textContent btn) ''Refresh''
                     \<or> str_includes (textContent btn) ''Play'') (buttons p))"

text \<open>
  The timer callback: restore, then resolve with the first captured URL or the literal.
\<close>

definition onTimeout :: "fetch_fn \<Rightarrow> string list \<Rightarrow> world \<Rightarrow> (js_error + string) \<times> world" where
  "onTimeout originalFetch capturedUrls w =
     (let w' = w\<lparr>window_fetch := originalFetch, trace := trace w @ [SetFetch originalFetch]\<rparr>
      in case capturedUrls of
           gameUrl # _ \<Rightarrow> (Inr gameUrl, w')
         | [] \<Rightarrow> (Inr ''/voyager/api/graphql?includeWebMetadata=true&variables=(gameTypeId:6)&queryId=voyagerIdentityDashGames.b13494b14a45c551e881ca8aa820dff0'', w'))"

text \<open>
  The executor of the promise that \<^verbatim>\<open>detectApiUrl\<close> returns when the passive scan
  gave nothing. \<open>Inl\<close> is a rejected promise: an exception in the executor rejects it, and
  nothing after the throwing statement runs, so the timer is never set. While the wrapper
  is installed every call of the page goes through it and is forwarded to the function
  found at installation.
\<close>

definition interceptAndRefresh :: "discovery_page \<Rightarrow> world \<Rightarrow> (js_error + string) \<times> world" where
  "interceptAndRefresh p w =
     (let originalFetch = window_fetch w;
          w1 = w\<lparr>window_fetch := Interceptor originalFetch,
                 trace := trace w @ [SetFetch (Interceptor originalFetch)]\<rparr>
      in case affordance p of
           None \<Rightarrow>
             onTimeout originalFetch (foldl intercept [] (window_calls p))
               (w1\<lparr>trace := trace w1 @ map (Forwarded originalFetch) (window_calls p)\<rparr>)
         | Some btn \<Rightarrow>
             (case click_effect btn of
                NoClickMethod \<Rightarrow> (Inl TypeError, w1)
              | Calls clickCalls \<Rightarrow>
                  onTimeout originalFetch
                    (foldl intercept [] (clickCalls @ window_calls p))
                    (w1\<lparr>trace := trace w1 @ [Activate (textContent btn)]
                           @ map (Forwarded originalFetch) (clickCalls @ window_calls p)\<rparr>)))"

text \<open>
  \<^verbatim>\<open>detectApiUrl\<close>: \<^verbatim>\<open>if (existingUrl)\<close> holds for a string that is not empty.
\<close>

definition detectApiUrl :: "discovery_page \<Rightarrow> world \<Rightarrow> (js_error + string) \<times> world" where
  "detectApiUrl p w =
     (case findGameApiUrl p of
        None \<Rightarrow> interceptAndRefresh p w
      | Some existingUrl \<Rightarrow>
          if existingUrl = [] then interceptAndRefresh p w
          else (Inr existingUrl, w\<lparr>apiUrl := existingUrl\<rparr>))"

section \<open>Puzzle retriever\<close>

text \<open>
  The values \<^verbatim>\<open>response.json()\<close> can produce, with \<^verbatim>\<open>undefined\<close> for what a
  property read yields where nothing is stored. Numbers are the integers; an object is the
  list of its own properties, each name once.
\<close>

datatype jsval =
    Undefined
  | Null
  | Bool bool
  | Num int
  | Str string
  | Arr "jsval list"
  | Obj "(string \<times> jsval) list"

text \<open>
  Reading a named property, for the names \<^verbatim>\<open>fetchPuzzle\<close> reads: of
  \<^verbatim>\<open>undefined\<close> and \<^verbatim>\<open>null\<close> it throws a \<^verbatim>\<open>TypeError\<close>; arrays and strings
  have \<^verbatim>\<open>length\<close> and none of the other names; numbers and booleans have none.
\<close>

fun get_prop :: "jsval \<Rightarrow> string \<Rightarrow> js_error + jsval" where
  "get_prop Undefined k = Inl TypeError"
| "get_prop Null k = Inl TypeError"
| "get_prop (Obj kvs) k = Inr (case map_of kvs k of None \<Rightarrow> Undefined | Some v \<Rightarrow> v)"
| "get_prop (Arr xs) k = Inr (if k = ''length'' then Num (int (length xs)) else Undefined)"
| "get_prop (Str s) k = Inr (if k = ''length'' then Num (int (length s)) else Undefined)"
| "get_prop (Bool v) k = Inr Undefined"
| "get_prop (Num n) k = Inr Undefined"

text \<open>Reading element \<^verbatim>\<open>[0]\<close>.\<close>

fun get_first :: "jsval \<Rightarrow> js_error + jsval" where
  "get_first Undefined = Inl TypeError"
| "get_first Null = Inl TypeError"
| "get_first (Arr xs) = Inr (case xs of [] \<Rightarrow> Undefined | x # _ \<Rightarrow> x)"
| "get_first (Str s) = Inr (case s of [] \<Rightarrow> Undefined | c # _ \<Rightarrow> Str [c])"
| "get_first (Obj kvs) = Inr (case map_of kvs ''0'' of None \<Rightarrow> Undefined | Some v \<Rightarrow> v)"
| "get_first (Bool v) = Inr Undefined"
| "get_first (Num n) = Inr Undefined"

record response =
  resp_ok :: bool
  resp_status :: nat
  resp_text :: string
  resp_json :: "jsval option"

text \<open>
  The awaited \<^verbatim>\<open>fetch\<close> either rejects or yields a response, whose body parses as
  JSON or does not (\<open>None\<close>: \<^verbatim>\<open>response.json()\<close> rejects with a
  \<^verbatim>\<open>SyntaxError\<close>).
\<close>

datatype fetch_outcome = Rejected | Responded response

record bot_fields =
  this_puzzle :: jsval
  this_gridSize :: jsval
  this_solution :: jsval

text \<open>
  \<^verbatim>\<open>fetchPuzzle\<close>, with the fields of \<^verbatim>\<open>this\<close> it assigns. The \<^verbatim>\<open>catch\<close> block
  logs and throws the error again, so \<open>Inl\<close> is what the caller receives. The reads of
  \<^verbatim>\<open>this.solution.length\<close> and \<^verbatim>\<open>this.puzzle.orderedSequence\<close> are those of the
  two \<^verbatim>\<open>console.log\<close> calls before \<^verbatim>\<open>return\<close>.
\<close>

definition fetchPuzzle :: "fetch_outcome \<Rightarrow> bot_fields \<Rightarrow> (js_error + jsval) \<times> bot_fields" where
  "fetchPuzzle outcome this =
     (case outcome of
        Rejected \<Rightarrow> (Inl NetworkError, this)
      | Responded response \<Rightarrow>
          if \<not> resp_ok response
          then (Inl (HttpError (resp_status response) (resp_text response)), this)
          else
            (case resp_json response of
               None \<Rightarrow> (Inl SyntaxError, this)
             | Some data \<Rightarrow>
            (case get_prop data ''included'' of
               Inl e \<Rightarrow> (Inl e, this)
             | Inr included \<Rightarrow>
            (case get_first included of
               Inl e \<Rightarrow> (Inl e, this)
             | Inr gameData \<Rightarrow>
            (case get_prop gameData ''gamePuzzle'' of
               Inl e \<Rightarrow> (Inl e, this)
             | Inr gamePuzzle \<Rightarrow>
            (case get_prop gamePuzzle ''trailGamePuzzle'' of
               Inl e \<Rightarrow> (Inl e, this)
             | Inr puzzle \<Rightarrow>
            (case get_prop puzzle ''gridSize'' of
               Inl e \<Rightarrow> (Inl e, this\<lparr>this_puzzle := puzzle\<rparr>)
             | Inr g \<Rightarrow>
            (case get_prop puzzle ''solution'' of
               Inl e \<Rightarrow> (Inl e, this\<lparr>this_puzzle := puzzle, this_gridSize := g\<rparr>)
             | Inr sol \<Rightarrow>
            (case get_prop sol ''length'' of
               Inl e \<Rightarrow>
                 (Inl e, this\<lparr>this_puzzle := puzzle, this_gridSize := g, this_solution := sol\<rparr>)
             | Inr len \<Rightarrow>
            (case get_prop puzzle ''orderedSequence'' of
               Inl e \<Rightarrow>
                 (Inl e, this\<lparr>this_puzzle := puzzle, this_gridSize := g, this_solution := sol\<rparr>)
             | Inr ordered \<Rightarrow>
                 (Inr puzzle,
                  this\<lparr>this_puzzle := puzzle, this_gridSize := g, this_solution := sol\<rparr>
                 )))))))))))"

text \<open>
  The traversal path in the words of the specification: the first element of the
  \<^verbatim>\<open>included\<close> list, its puzzle-container field, and the game-specific sub-object
  with \<^verbatim>\<open>gridSize\<close> and \<^verbatim>\<open>solution\<close>. \<open>field\<close> reads a field without failing,
  and a field is missing when the read gives \<^verbatim>\<open>undefined\<close> or \<^verbatim>\<open>null\<close>.
\<close>

definition nullish :: "jsval \<Rightarrow> bool" where
  "nullish v = (v = Undefined \<or> v = Null)"

definition field :: "jsval \<Rightarrow> string \<Rightarrow> jsval" where
  "field v k = (case get_prop v k of Inl e \<Rightarrow> Undefined | Inr x \<Rightarrow> x)"

definition first_of :: "jsval \<Rightarrow> jsval" where
  "first_of v = (case get_first v of Inl e \<Rightarrow> Undefined | Inr x \<Rightarrow> x)"

definition envelope_puzzle :: "jsval \<Rightarrow> jsval" where
  "envelope_puzzle data =
     field (field (first_of (field data ''included'')) ''gamePuzzle'') ''trailGamePuzzle''"

definition container_missing :: "jsval \<Rightarrow> bool" where
  "container_missing data =
     (nullish (field data ''included'')
      \<or> nullish (first_of (field data ''included''))
      \<or> nullish (field (first_of (field data ''included'')) ''gamePuzzle'')
      \<or> nullish (envelope_puzzle data))"

section \<open>Inputs and notions used in the statements\<close>

text \<open>A path all of whose consecutive pairs have a direction.\<close>

fun all_adjacent :: "bot \<Rightarrow> int list \<Rightarrow> bool" where
  "all_adjacent b (x # y # rest) = (getDirection b x y \<noteq> None \<and> all_adjacent b (y # rest))"
| "all_adjacent b cells = True"

text \<open>A fresh run: clock 0, nothing dispatched, nothing logged.\<close>

definition run0 :: run where
  "run0 = \<lparr>now = 0, tick = 0, events = [], console = []\<rparr>"

text \<open>
  A page whose board root is there from the start and whose cells appear only after the
  readiness wait has timed out: they are absent at the fifty polls and at the end of the
  wait, and present from the next suspension on.
\<close>

definition late_page :: page where
  "late_page k = (if k \<le> 50
     then \<lparr>trail_board = True, cell_idxs = [], trail_grid = True, game_won = False\<rparr>
     else \<lparr>trail_board = True, cell_idxs = [0, 1], trail_grid = True, game_won = False\<rparr>)"

text \<open>A page whose cells never appear.\<close>

definition stuck_page :: page where
  "stuck_page k = \<lparr>trail_board = True, cell_idxs = [], trail_grid = True, game_won = False\<rparr>"

text \<open>A page with board and cells but no element carrying \<^verbatim>\<open>data-trail-grid\<close>.\<close>

definition gridless_page :: page where
  "gridless_page k =
     \<lparr>trail_board = True, cell_idxs = [0, 1, 2, 3], trail_grid = False, game_won = False\<rparr>"

text \<open>A 5 by 5 board that is ready throughout.\<close>

definition ready_page :: page where
  "ready_page k = \<lparr>trail_board = True,
     cell_idxs = [0, 1, 2, 3, 4, 5, 6, 7, 8, 9, 10, 11, 12, 13, 14, 15, 16, 17, 18, 19, 20,
                  21, 22, 23, 24],
     trail_grid = True, game_won = False\<rparr>"

text \<open>A 3 by 3 board that is ready throughout and carries the won marker.\<close>

definition won_page :: page where
  "won_page k = \<lparr>trail_board = True, cell_idxs = [0, 1, 2, 3, 4, 5, 6, 7, 8],
     trail_grid = True, game_won = True\<rparr>"

text \<open>
  The calls that reach the wrapper between its installation and the timer: those made by
  the handlers of the clicked element, then those of the 3000 ms. \<open>None\<close> when the click
  throws, so that the observation window never starts.
\<close>

definition all_calls :: "discovery_page \<Rightarrow> fetch_arg list option" where
  "all_calls p =
     (case affordance p of
        None \<Rightarrow> Some (window_calls p)
      | Some btn \<Rightarrow>
          (case click_effect btn of
             NoClickMethod \<Rightarrow> None
           | Calls clickCalls \<Rightarrow> Some (clickCalls @ window_calls p)))"

text \<open>The window and the bot before discovery.\<close>

definition world0 :: world where
  "world0 = \<lparr>window_fetch = PageFetch 0, apiUrl = constructor_apiUrl, trace = []\<rparr>"

text \<open>
  A page with no matching resource-timing entry and a Play button; neither the click nor
  the 3000 ms bring a call for the game.
\<close>

definition quiet_page :: discovery_page where
  "quiet_page =
     \<lparr>perf_entries = Some [''https://www.linkedin.com/li/track''],
      url_parse = (\<lambda>name. None),
      refresh_button = None,
      buttons = [\<lparr>textContent = ''Share'', click_effect = Calls []\<rparr>,
                 \<lparr>textContent = ''Play again'',
                  click_effect = Calls [UrlString ''/voyager/api/graphql?queryId=me'']\<rparr>],
      window_calls = [NotAString, UrlString ''/li/track'']\<rparr>"

text \<open>A page that has already requested the puzzle.\<close>

definition visited_page :: discovery_page where
  "visited_page =
     \<lparr>perf_entries = Some [''https://www.linkedin.com/li/track'',
         ''https://www.linkedin.com/voyager/api/graphql?variables=(gameTypeId:6)&queryId=q1''],
      url_parse = (\<lambda>name.
         if name = ''https://www.linkedin.com/voyager/api/graphql?variables=(gameTypeId:6)&queryId=q1''
         then Some (''/voyager/api/graphql'', ''?variables=(gameTypeId:6)&queryId=q1'')
         else None),
      refresh_button = Some \<lparr>textContent = ''Refresh'', click_effect = Calls []\<rparr>,
      buttons = [],
      window_calls = []\<rparr>"

text \<open>
  A page on which \<^verbatim>\<open>[data-test-id="refresh-button"]\<close> matches an element that is not an
  HTML element (an element of an inline SVG, say): it has no \<^verbatim>\<open>click\<close> method.
\<close>

definition foreign_refresh_page :: discovery_page where
  "foreign_refresh_page =
     \<lparr>perf_entries = Some [],
      url_parse = (\<lambda>name. None),
      refresh_button = Some \<lparr>textContent = ''Refresh'', click_effect = NoClickMethod\<rparr>,
      buttons = [],
      window_calls = []\<rparr>"

text \<open>The fields of \<^verbatim>\<open>this\<close> as the constructor leaves them.\<close>

definition this0 :: bot_fields where
  "this0 = \<lparr>this_puzzle = Null, this_gridSize = Num 0, this_solution = Arr []\<rparr>"

definition ok_response :: "jsval \<Rightarrow> fetch_outcome" where
  "ok_response data =
     Responded \<lparr>resp_ok = True, resp_status = 200, resp_text = [], resp_json = Some data\<rparr>"

text \<open>An envelope whose puzzle has a solution and no grid size.\<close>

definition no_gridSize_body :: jsval where
  "no_gridSize_body =
     Obj [(''included'',
       Arr [Obj [(''gamePuzzle'',
         Obj [(''trailGamePuzzle'', Obj [(''solution'', Arr [Num 0, Num 1])])])]])]"

text \<open>An envelope whose first included element has no puzzle container.\<close>

definition no_container_body :: jsval where
  "no_container_body = Obj [(''included'', Arr [Obj [(''entityUrn'', Str ''urn:li:game'')]])]"

section \<open>Properties of the coordinate mapper\<close>

subsection \<open>Division of doubles\<close>

lemma bits_bounds: "0 < n \<Longrightarrow> 2 ^ bits n \<le> 2 * n \<and> n < 2 ^ bits n"
proof (induction n rule: bits.induct)
  case (1 n)
  have b: "bits n = Suc (bits (n div 2))"
    using "1.prems" by (simp add: bits.simps [of n])
  show ?case
  proof (cases "n div 2 = 0")
    case True
    then have "n = 1" using "1.prems" by linarith
    moreover have "bits n = 1" using b True by (simp add: bits.simps [of 0])
    ultimately show ?thesis by simp
  next
    case False
    then have ih: "2 ^ bits (n div 2) \<le> 2 * (n div 2) \<and> n div 2 < 2 ^ bits (n div 2)"
      using "1.IH" "1.prems" by simp
    have h1: "2 * (n div 2) \<le> n" by simp
    have h2: "n < 2 * (n div 2) + 2" by linarith
    have p: "(2::nat) ^ Suc (bits (n div 2)) = 2 * 2 ^ bits (n div 2)" by simp
    show ?thesis unfolding b p using ih h1 h2 by linarith
  qed
qed

lemma bits_eq:
  assumes "0 < n" and "2 ^ k \<le> 2 * n" and "n < 2 ^ k"
  shows "bits n = k"
proof (rule ccontr)
  assume ne: "bits n \<noteq> k"
  have b: "2 ^ bits n \<le> 2 * n" "n < 2 ^ bits n"
    using bits_bounds [OF assms(1)] by simp_all
  show False
  proof (cases "bits n < k")
    case True
    then have "Suc (bits n) \<le> k" by simp
    then have "(2::nat) ^ Suc (bits n) \<le> 2 ^ k" by (rule power_increasing) simp
    then show False using b(2) assms(2) by simp
  next
    case False
    then have "Suc k \<le> bits n" using ne by simp
    then have "(2::nat) ^ Suc k \<le> 2 ^ bits n" by (rule power_increasing) simp
    then show False using b(1) assms(3) by simp
  qed
qed

lemma round_half_even_bounds:
  assumes "0 \<le> n" and "0 < d"
  shows "n div d \<le> round_half_even n d \<and> 2 * d * round_half_even n d \<le> 2 * n + d"
proof -
  have r: "0 \<le> n mod d" using assms(2) by simp
  have "2 * (d * (n div d)) = 2 * n - 2 * (n mod d)"
    using mult_div_mod_eq [of d n] by linarith
  then have e: "2 * d * (n div d) = 2 * n - 2 * (n mod d)"
    by (simp only: mult.assoc)
  have "2 * d * (n div d + 1) = 2 * d * (n div d) + 2 * d"
    by (simp add: algebra_simps)
  then have e1: "2 * d * (n div d + 1) = 2 * n - 2 * (n mod d) + 2 * d"
    using e by simp
  let ?R = "round_half_even n d"
  have c: "?R = n div d \<or> (?R = n div d + 1 \<and> d \<le> 2 * (n mod d))"
    by (auto simp add: round_half_even_def Let_def)
  then show ?thesis
  proof
    assume R: "?R = n div d"
    have "2 * d * ?R \<le> 2 * n + d" unfolding R e using r assms(2) by linarith
    then show ?thesis using R by simp
  next
    assume "?R = n div d + 1 \<and> d \<le> 2 * (n mod d)"
    then have R: "?R = n div d + 1" and h: "d \<le> 2 * (n mod d)" by simp_all
    have "2 * d * ?R \<le> 2 * n + d" unfolding R e1 using h by linarith
    then show ?thesis using R by simp
  qed
qed

lemma round_half_even_one: "round_half_even n 1 = n"
  by (simp add: round_half_even_def)

lemma js_floor_div_exact:
  assumes a: "0 \<le> a" and lt: "a < 2 ^ 53" and b: "0 < b"
  shows "js_floor_div a b = a div b"
proof (cases "a = 0")
  case True
  then show ?thesis by (simp add: js_floor_div_def)
next
  case False
  then have apos: "0 < a" using a by simp
  define la where "la = bits (nat a)"
  define lb where "lb = bits (nat b)"
  define c :: nat where "c = (if b * 2 ^ la \<le> a * 2 ^ lb then 0 else 1)"
  define E where "E = lb + 52 + c"
  have ba: "(2::int) ^ la \<le> 2 * a"
  proof -
    have "2 ^ bits (nat a) \<le> 2 * nat a" using bits_bounds [of "nat a"] apos by simp
    then have "int (2 ^ bits (nat a)) \<le> int (2 * nat a)" by (simp only: of_nat_le_iff)
    then show ?thesis using apos by (simp add: la_def)
  qed
  have bb: "b < 2 ^ lb"
  proof -
    have "nat b < 2 ^ bits (nat b)" using bits_bounds [of "nat b"] b by simp
    then have "int (nat b) < int (2 ^ bits (nat b))" by (simp only: of_nat_less_iff)
    then show ?thesis using b by (simp add: lb_def)
  qed
  have low: "b * 2 ^ la \<le> a * 2 ^ (lb + c)"
  proof (cases "b * 2 ^ la \<le> a * 2 ^ lb")
    case True
    then show ?thesis by (simp add: c_def)
  next
    case False
    have "b * 2 ^ la \<le> b * (2 * a)" using ba b by (simp add: mult_left_mono)
    also have "\<dots> = (2 * a) * b" by simp
    also have "\<dots> \<le> (2 * a) * 2 ^ lb" using bb apos by (simp add: mult_left_mono)
    finally show ?thesis using False by (simp add: c_def)
  qed
  have "a * 2 ^ (lb + c) < 2 ^ 53 * 2 ^ (lb + c)"
    using lt by simp
  also have "\<dots> = (2::int) * 2 ^ E" by (simp add: E_def power_add)
  finally have up: "b * 2 ^ la < 2 * 2 ^ E" using low by linarith
  have unfold: "js_floor_div a b =
     (if E \<le> la then round_half_even a (b * 2 ^ (la - E)) * 2 ^ (la - E)
      else round_half_even (a * 2 ^ (E - la)) b div 2 ^ (E - la))"
    using apos b False
    by (simp add: js_floor_div_def Let_def la_def lb_def c_def E_def)
  show ?thesis
  proof (cases "E \<le> la")
    case True
    then have "(2::int) ^ la = 2 ^ (la - E) * 2 ^ E" by (simp flip: power_add)
    then have "(b * 2 ^ (la - E)) * 2 ^ E < 2 * 2 ^ E" using up by (simp add: mult.assoc)
    then have "b * 2 ^ (la - E) < 2" by simp
    moreover have "(1::int) \<le> 2 ^ (la - E)" by simp
    ultimately have small: "b * 2 ^ (la - E) < 2" and one: "(1::int) \<le> 2 ^ (la - E)"
      by simp_all
    have b1: "b = 1"
    proof (rule ccontr)
      assume "b \<noteq> 1"
      then have "2 \<le> b" using b by simp
      then have "2 * 1 \<le> b * 2 ^ (la - E)" using one by (intro mult_mono) simp_all
      then show False using small by simp
    qed
    have "(2::int) ^ (la - E) < 2" using small by (simp add: b1)
    then have s1: "(2::int) ^ (la - E) = 1" using one by linarith
    show ?thesis using True unfold by (simp add: b1 s1 round_half_even_one)
  next
    case False
    define D :: int where "D = 2 ^ (E - la)"
    define M where "M = round_half_even (a * D) b"
    define t where "t = a div b"
    have Dpos: "0 < D" by (simp add: D_def)
    have "(2::int) ^ E = D * 2 ^ la" using False by (simp add: D_def flip: power_add)
    then have "b * 2 ^ la < (2 * D) * 2 ^ la" using up by simp
    then have bD: "b < 2 * D" by simp
    have m: "(a * D) div b \<le> M \<and> 2 * b * M \<le> 2 * (a * D) + b"
      unfolding M_def using round_half_even_bounds [of "a * D" b] apos Dpos b by simp
    have ab: "b * t + a mod b = a" by (simp add: t_def)
    have r: "0 \<le> a mod b" "a mod b < b" using b by simp_all
    have "t * D * b \<le> a * D"
    proof -
      have "b * t \<le> a" using ab r by linarith
      then have "(b * t) * D \<le> a * D" using Dpos by (simp add: mult_right_mono)
      then show ?thesis by (simp add: mult.commute mult.left_commute)
    qed
    then have "(t * D * b) div b \<le> (a * D) div b"
      using b by (rule zdiv_mono1)
    then have "t * D \<le> (a * D) div b"
      using b by simp
    then have lo: "t * D \<le> M" using m by linarith
    have "a + 1 \<le> b * (t + 1)" using ab r by (simp add: algebra_simps)
    then have "(a + 1) * (2 * D) \<le> (b * (t + 1)) * (2 * D)"
      using Dpos by (simp add: mult_right_mono)
    then have "2 * (a * D) + 2 * D \<le> 2 * b * ((t + 1) * D)"
      by (simp add: algebra_simps)
    then have "2 * b * M < 2 * b * ((t + 1) * D)" using m bD by linarith
    then have hi: "M < (t + 1) * D" using b by simp
    have "M div D = t"
    proof -
      have "M = D * t + (M - t * D)" by (simp add: algebra_simps)
      moreover have "0 \<le> M - t * D" "M - t * D < D" using lo hi by (simp_all add: algebra_simps)
      ultimately show ?thesis
        by (metis Dpos div_pos_pos_trivial div_mult_self4 add.right_neutral less_irrefl)
    qed
    then show ?thesis using False unfold by (simp add: D_def M_def t_def)
  qed
qed

lemma bits_grid: "bits 134217729 = 28"
  by (rule bits_eq) simp_all

lemma bits_last_cell: "bits 18014398777917440 = 55"
  by (rule bits_eq) simp_all

lemma bits_cell_a: "bits 18014393409208280 = 54"
  by (rule bits_eq) simp_all

lemma bits_cell_c: "bits 18014393543426008 = 54"
  by (rule bits_eq) simp_all

subsection \<open>Coordinates\<close>

lemma js_rem_nonneg: "0 \<le> a \<Longrightarrow> 0 < b \<Longrightarrow> js_rem a b = a mod b"
  by (cases "a = 0") (simp_all add: js_rem_def)

lemma indexToCoords_valid:
  assumes "0 < gridSize b" "0 \<le> i" "i < 2 ^ 53"
  shows "indexToCoords b i = Some \<lparr>row = i div gridSize b, col = i mod gridSize b\<rparr>"
  using assms by (simp add: indexToCoords_def js_rem_nonneg js_floor_div_exact)

text \<open>
  Claim C7, as stated, fails. On a grid of size \<open>2\<^sup>2\<^sup>7 + 1\<close> the last cell,
  \<open>2\<^sup>5\<^sup>4 + 2\<^sup>2\<^sup>8\<close>, is a valid identifier and both numbers are doubles, but the quotient
  of the two doubles rounds up to the grid size: \<^verbatim>\<open>indexToCoords\<close> returns the row
  134217729, which is not the floor 134217728 of the exact quotient, lies outside the grid
  and breaks the round trip.
\<close>

theorem indexToCoords_large_grid_counterexample:
  "exact_double 134217729 \<and> exact_double 18014398777917440
   \<and> (0::int) \<le> 18014398777917440
   \<and> (18014398777917440::int) < 134217729 * 134217729
   \<and> indexToCoords \<lparr>gridSize = 134217729, solution = []\<rparr> 18014398777917440
       = Some \<lparr>row = 134217729, col = 134217728\<rparr>
   \<and> (18014398777917440::int) div 134217729 = 134217728
   \<and> (134217729::int) * 134217729 + 134217728 \<noteq> 18014398777917440"
  by (simp add: indexToCoords_def js_floor_div_def js_rem_def round_half_even_def
      exact_double_def Let_def bits_grid bits_last_cell)

text \<open>
  Claim C7, amended. For a positive grid size and a cell identifier \<open>i\<close> with
  \<open>0 \<le> i < gridSize\<^sup>2\<close> and \<open>i < 2\<^sup>5\<^sup>3\<close> (the range in which every integer is a
  JavaScript number), \<^verbatim>\<open>indexToCoords\<close> returns the row \<open>i div gridSize\<close> and the
  column \<open>i mod gridSize\<close>; these satisfy \<open>row * gridSize + col = i\<close>, and both lie in
  the grid.
\<close>

theorem indexToCoords_roundtrip:
  assumes "0 < gridSize b" and "0 \<le> i" and "i < gridSize b * gridSize b" and "i < 2 ^ 53"
  shows "\<exists>c. indexToCoords b i = Some c
           \<and> row c = i div gridSize b \<and> col c = i mod gridSize b
           \<and> row c * gridSize b + col c = i
           \<and> 0 \<le> row c \<and> row c < gridSize b \<and> 0 \<le> col c \<and> col c < gridSize b"
proof -
  let ?n = "gridSize b"
  have c: "indexToCoords b i = Some \<lparr>row = i div ?n, col = i mod ?n\<rparr>"
    using assms(1,2,4) by (rule indexToCoords_valid)
  have r0: "0 \<le> i div ?n" using assms(1,2) by (simp add: pos_imp_zdiv_nonneg_iff)
  have r1: "i div ?n < ?n"
  proof (rule ccontr)
    assume "\<not> i div ?n < ?n"
    then have "?n * ?n \<le> ?n * (i div ?n)"
      using assms(1) by (simp add: mult_left_mono)
    moreover have "?n * (i div ?n) + i mod ?n = i" by simp
    moreover have "0 \<le> i mod ?n" using assms(1) by simp
    ultimately show False using assms(3) by linarith
  qed
  show ?thesis using c r0 r1 assms(1) by simp
qed

theorem indexToCoords_roundtrip_witness:
  "\<exists>c. indexToCoords \<lparr>gridSize = 5, solution = []\<rparr> 7 = Some c
       \<and> row c = 1 \<and> col c = 2 \<and> row c * 5 + col c = 7"
  using indexToCoords_roundtrip [of "\<lparr>gridSize = 5, solution = []\<rparr>" 7] by auto

lemma getDirection_valid:
  assumes "0 < gridSize b" "0 \<le> a" "a < 2 ^ 53" "0 \<le> c" "c < 2 ^ 53"
  shows "getDirection b a c =
     (let rowDiff = c div gridSize b - a div gridSize b;
          colDiff = c mod gridSize b - a mod gridSize b
      in if rowDiff = - 1 \<and> colDiff = 0 then Some ArrowUp
         else if rowDiff = 1 \<and> colDiff = 0 then Some ArrowDown
         else if rowDiff = 0 \<and> colDiff = - 1 then Some ArrowLeft
         else if rowDiff = 0 \<and> colDiff = 1 then Some ArrowRight
         else None)"
  using assms by (simp add: getDirection_def indexToCoords_valid)

lemma same_coords_same_cell:
  fixes a c n :: int
  assumes "a div n = c div n" "a mod n = c mod n"
  shows "a = c"
  by (metis assms mult_div_mod_eq)

text \<open>
  Claim C8, as stated, fails. On the grid of size \<open>2\<^sup>2\<^sup>7 + 1\<close> the valid cells
  18014393409208280 (row 134217688, last column) and 18014393543426008 (row 134217689,
  last column but one) are diagonal neighbours: both deltas are non-zero. Both are
  doubles, and the quotient of the first rounds up to the row of the second, so
  \<^verbatim>\<open>getDirection\<close> returns the left arrow instead of \<^verbatim>\<open>null\<close>.
\<close>

theorem getDirection_large_grid_counterexample:
  "exact_double 134217729 \<and> exact_double 18014393409208280 \<and> exact_double 18014393543426008
   \<and> (18014393409208280::int) < 134217729 * 134217729
   \<and> (18014393543426008::int) < 134217729 * 134217729
   \<and> (18014393543426008::int) div 134217729 - 18014393409208280 div 134217729 = 1
   \<and> (18014393543426008::int) mod 134217729 - 18014393409208280 mod 134217729 = - 1
   \<and> getDirection \<lparr>gridSize = 134217729, solution = []\<rparr> 18014393409208280 18014393543426008
       = Some ArrowLeft"
  by (simp add: getDirection_def indexToCoords_def js_floor_div_def js_rem_def
      round_half_even_def exact_double_def Let_def bits_grid bits_cell_a bits_cell_c)

text \<open>
  Claim C8, amended. For cell identifiers \<open>a\<close> and \<open>c\<close> that are valid for a positive grid
  size and below \<open>2\<^sup>5\<^sup>3\<close>, the coordinates are row \<open>div\<close> and column \<open>mod\<close>, and
  \<^verbatim>\<open>getDirection\<close> returns \<^verbatim>\<open>null\<close> exactly when the two cells are the same, or the
  Chebyshev distance of their coordinates exceeds 1, or both the row delta and the column
  delta are non-zero; otherwise it returns the one key of the unit orthogonal step: up for
  row delta -1, down for +1, left for column delta -1, right for +1.
\<close>

theorem getDirection_None_iff:
  assumes "0 < gridSize b"
    and "0 \<le> a" and "a < gridSize b * gridSize b" and "a < 2 ^ 53"
    and "0 \<le> c" and "c < gridSize b * gridSize b" and "c < 2 ^ 53"
  shows "\<exists>p q. indexToCoords b a = Some p \<and> indexToCoords b c = Some q
     \<and> row p = a div gridSize b \<and> col p = a mod gridSize b
     \<and> row q = c div gridSize b \<and> col q = c mod gridSize b
     \<and> ((getDirection b a c = None) =
          (a = c \<or> 1 < max \<bar>row q - row p\<bar> \<bar>col q - col p\<bar>
             \<or> (row q - row p \<noteq> 0 \<and> col q - col p \<noteq> 0)))
     \<and> ((getDirection b a c = Some ArrowUp) = (row q - row p = - 1 \<and> col q - col p = 0))
     \<and> ((getDirection b a c = Some ArrowDown) = (row q - row p = 1 \<and> col q - col p = 0))
     \<and> ((getDirection b a c = Some ArrowLeft) = (row q - row p = 0 \<and> col q - col p = - 1))
     \<and> ((getDirection b a c = Some ArrowRight) = (row q - row p = 0 \<and> col q - col p = 1))"
proof -
  let ?n = "gridSize b"
  let ?p = "\<lparr>row = a div ?n, col = a mod ?n\<rparr>"
  let ?q = "\<lparr>row = c div ?n, col = c mod ?n\<rparr>"
  have p: "indexToCoords b a = Some ?p" using assms(1,2,4) by (rule indexToCoords_valid)
  have q: "indexToCoords b c = Some ?q" using assms(1,5,7) by (rule indexToCoords_valid)
  have g: "getDirection b a c =
     (let rowDiff = c div ?n - a div ?n; colDiff = c mod ?n - a mod ?n
      in if rowDiff = - 1 \<and> colDiff = 0 then Some ArrowUp
         else if rowDiff = 1 \<and> colDiff = 0 then Some ArrowDown
         else if rowDiff = 0 \<and> colDiff = - 1 then Some ArrowLeft
         else if rowDiff = 0 \<and> colDiff = 1 then Some ArrowRight
         else None)"
    using assms(1,2,4,5,7) by (rule getDirection_valid)
  have same: "(a = c) = (c div ?n - a div ?n = 0 \<and> c mod ?n - a mod ?n = 0)"
    using same_coords_same_cell [of a ?n c] by auto
  have none: "(getDirection b a c = None) =
          (a = c \<or> 1 < max \<bar>c div ?n - a div ?n\<bar> \<bar>c mod ?n - a mod ?n\<bar>
             \<or> (c div ?n - a div ?n \<noteq> 0 \<and> c mod ?n - a mod ?n \<noteq> 0))"
    unfolding g same Let_def by (auto simp: max_def)
  have up: "(getDirection b a c = Some ArrowUp)
      = (c div ?n - a div ?n = - 1 \<and> c mod ?n - a mod ?n = 0)"
    unfolding g Let_def by auto
  have down: "(getDirection b a c = Some ArrowDown)
      = (c div ?n - a div ?n = 1 \<and> c mod ?n - a mod ?n = 0)"
    unfolding g Let_def by auto
  have left: "(getDirection b a c = Some ArrowLeft)
      = (c div ?n - a div ?n = 0 \<and> c mod ?n - a mod ?n = - 1)"
    unfolding g Let_def by auto
  have right: "(getDirection b a c = Some ArrowRight)
      = (c div ?n - a div ?n = 0 \<and> c mod ?n - a mod ?n = 1)"
    unfolding g Let_def by auto
  show ?thesis
    using p q none up down left right by simp
qed

theorem getDirection_None_iff_witness:
  "getDirection \<lparr>gridSize = 5, solution = []\<rparr> 2 7 = Some ArrowDown
   \<and> getDirection \<lparr>gridSize = 5, solution = []\<rparr> 0 2 = None"
  using getDirection_None_iff [of "\<lparr>gridSize = 5, solution = []\<rparr>" 2 7]
        getDirection_None_iff [of "\<lparr>gridSize = 5, solution = []\<rparr>" 0 2]
  by (auto simp: indexToCoords_valid)

section \<open>Properties of the input driver\<close>

subsection \<open>The stepping loop\<close>

lemma stepLoop_Cons:
  "ys \<noteq> [] \<Longrightarrow> stepLoop page b speed (x # ys) s =
     (case getDirection b x (hd ys) of
        None \<Rightarrow> report (InvalidMove x (hd ys)) s
      | Some d \<Rightarrow> stepLoop page b speed ys (sleep speed (snd (simulateKeyPress page d s))))"
  by (cases ys) (auto split: option.splits)

lemma stepLoop_cut_events:
  assumes "getDirection b a c = None"
  shows "events (stepLoop page b speed (pre @ a # c # post) s)
       = events (stepLoop page b speed (pre @ [a]) s)"
proof (induction pre arbitrary: s)
  case Nil
  show ?case using assms by (simp add: report_def)
next
  case (Cons x pre)
  have h: "hd (pre @ a # c # post) = hd (pre @ [a])"
    by (cases pre) simp_all
  have l: "stepLoop page b speed ((x # pre) @ a # c # post) s =
     (case getDirection b x (hd (pre @ [a])) of
        None \<Rightarrow> report (InvalidMove x (hd (pre @ [a]))) s
      | Some d \<Rightarrow> stepLoop page b speed (pre @ a # c # post)
                    (sleep speed (snd (simulateKeyPress page d s))))"
    using stepLoop_Cons [of "pre @ a # c # post" page b speed x s] h
    by (auto split: option.splits)
  have r: "stepLoop page b speed ((x # pre) @ [a]) s =
     (case getDirection b x (hd (pre @ [a])) of
        None \<Rightarrow> report (InvalidMove x (hd (pre @ [a]))) s
      | Some d \<Rightarrow> stepLoop page b speed (pre @ [a])
                    (sleep speed (snd (simulateKeyPress page d s))))"
    using stepLoop_Cons [of "pre @ [a]" page b speed x s] by simp
  show ?case
    unfolding l r by (cases "getDirection b x (hd (pre @ [a]))") (simp_all add: Cons.IH)
qed

lemma all_adjacent_Cons:
  "ys \<noteq> [] \<Longrightarrow> all_adjacent b (x # ys) = (getDirection b x (hd ys) \<noteq> None \<and> all_adjacent b ys)"
  by (cases ys) simp_all

lemma stepLoop_cut_report:
  assumes "getDirection b a c = None" and "all_adjacent b (pre @ [a])"
  shows "stepLoop page b speed (pre @ a # c # post) s
       = report (InvalidMove a c) (stepLoop page b speed (pre @ [a]) s)"
  using assms(2)
proof (induction pre arbitrary: s)
  case Nil
  show ?case using assms(1) by simp
next
  case (Cons x pre)
  have h: "hd (pre @ a # c # post) = hd (pre @ [a])"
    by (cases pre) simp_all
  obtain d where d: "getDirection b x (hd (pre @ [a])) = Some d"
    and adj: "all_adjacent b (pre @ [a])"
    using Cons.prems all_adjacent_Cons [of "pre @ [a]" b x] by auto
  have l: "stepLoop page b speed ((x # pre) @ a # c # post) s =
       stepLoop page b speed (pre @ a # c # post)
         (sleep speed (snd (simulateKeyPress page d s)))"
    using stepLoop_Cons [of "pre @ a # c # post" page b speed x s] h d by simp
  have r: "stepLoop page b speed ((x # pre) @ [a]) s =
       stepLoop page b speed (pre @ [a]) (sleep speed (snd (simulateKeyPress page d s)))"
    using stepLoop_Cons [of "pre @ [a]" page b speed x s] d by simp
  show ?case
    unfolding l r by (rule Cons.IH [OF adj])
qed

lemma getDirection_solution_update [simp]:
  "getDirection (b\<lparr>solution := xs\<rparr>) = getDirection b"
  by (intro ext) (simp add: getDirection_def indexToCoords_def)

lemma stepLoop_solution_update [simp]:
  "stepLoop page (b\<lparr>solution := xs\<rparr>) speed cells s = stepLoop page b speed cells s"
  by (induction page b speed cells s rule: stepLoop.induct) (simp_all split: option.splits)

lemma events_finish [simp]: "events (finish page s) = events s"
  by (simp add: finish_def Let_def sleep_def report_def)

lemma solvePuzzle_cut_events:
  assumes "getDirection b a c = None" and "solution b = pre @ a # c # post"
  shows "events (solvePuzzle page b speed s)
       = events (solvePuzzle page (b\<lparr>solution := pre @ [a]\<rparr>) speed s)"
proof -
  obtain startCell r1 r2 where
    l: "pre @ a # c # post = startCell # r1" and t: "pre @ [a] = startCell # r2"
    by (cases pre) auto
  show ?thesis
    unfolding solvePuzzle_def assms(2)
    using stepLoop_cut_events [OF assms(1), of page speed pre post]
    by (simp add: l t Let_def del: stepLoop.simps)
qed

lemma stepLoop_events_length:
  "length (events (stepLoop page b speed cells s)) \<le> length (events s) + 2 * (length cells - 1)"
proof (induction page b speed cells s rule: stepLoop.induct)
  case (1 page b speed fromCell toCell rest s)
  show ?case
  proof (cases "getDirection b fromCell toCell")
    case None
    then show ?thesis by (simp add: report_def)
  next
    case (Some direction)
    have "length (events (sleep speed (snd (simulateKeyPress page direction s))))
          \<le> length (events s) + 2"
      by (simp add: sleep_def simulateKeyPress_def dispatch_def)
    then show ?thesis using "1.IH" [OF Some] Some by simp
  qed
qed simp_all

lemma stepLoop_adjacent:
  "all_adjacent b cells \<Longrightarrow>
     console (stepLoop page b speed cells s) = console s
     \<and> tick (stepLoop page b speed cells s) = tick s + (length cells - 1)"
proof (induction page b speed cells s rule: stepLoop.induct)
  case (1 page b speed fromCell toCell rest s)
  then obtain d where d: "getDirection b fromCell toCell = Some d"
    and adj: "all_adjacent b (toCell # rest)"
    by auto
  have "console (sleep speed (snd (simulateKeyPress page d s))) = console s"
    and "tick (sleep speed (snd (simulateKeyPress page d s))) = Suc (tick s)"
    by (simp_all add: sleep_def simulateKeyPress_def dispatch_def)
  then show ?case using "1.IH" [OF d adj] d by simp
qed simp_all

lemma console_finish:
  "console (finish page t)
     = console t @ SequenceCompleted # (if game_won (page (Suc (tick t))) then [Victory] else [])"
  by (simp add: finish_def Let_def sleep_def report_def)

lemma solvePuzzle_ready:
  assumes "solution b = startCell # rest"
    and "board_ready (page (tick s))"
    and "startCell \<in> set (cell_idxs (page (Suc (tick s))))"
  shows "solvePuzzle page b speed s
       = finish page (stepLoop page b speed (solution b)
           (sleep 300 (dispatch [Click startCell] (sleep 200 (dispatch [Focus] s)))))"
  using assms
  by (simp add: solvePuzzle_def waitForGameBoard_def board_ready_def Let_def sleep_def
      dispatch_def del: stepLoop.simps)

text \<open>
  Claim C4, as stated, fails. For the solution 0, 2 on a 3 by 3 grid the pair has no
  direction; the run is not aborted with an error: after the error line for the invalid
  move \<^verbatim>\<open>solvePuzzle\<close> logs that the key sequence completed, waits the 1500 ms, logs
  the victory that the page shows, and returns as it does after a full replay.
\<close>

theorem invalid_move_not_fatal_counterexample:
  "getDirection \<lparr>gridSize = 3, solution = [0, 2]\<rparr> 0 2 = None
   \<and> solvePuzzle won_page \<lparr>gridSize = 3, solution = [0, 2]\<rparr> 100 run0
     = \<lparr>now = 2000, tick = 3, events = [Focus, Click 0],
        console = [InvalidMove 0 2, SequenceCompleted, Victory]\<rparr>"
  by (simp add: solvePuzzle_def waitForGameBoard_def board_ready_def won_page_def run0_def
      Let_def sleep_def dispatch_def report_def finish_def getDirection_valid)

text \<open>
  Claim C4, amended. When the consecutive pair \<open>a, c\<close> of the solution has no direction,
  the loop stops there: the events dispatched are those of replaying the path cut after
  \<open>a\<close>, so no key event is dispatched for this pair or a later one (at most two per pair
  before it). When every pair before had a direction, the loop writes the error line for
  the invalid move from \<open>a\<close> to \<open>c\<close> and nothing else, one suspension per pair before it.
  No error is raised: \<^verbatim>\<open>solvePuzzle\<close> then logs that the sequence completed, waits
  1500 ms, logs a victory if the page carries the won marker, and returns.
\<close>

theorem invalid_move_stops_replay:
  assumes "getDirection b a c = None"
  shows "events (stepLoop page b speed (pre @ a # c # post) s)
           = events (stepLoop page b speed (pre @ [a]) s)
     \<and> length (events (stepLoop page b speed (pre @ a # c # post) s))
           \<le> length (events s) + 2 * length pre
     \<and> (all_adjacent b (pre @ [a]) \<longrightarrow>
          console (stepLoop page b speed (pre @ a # c # post) s) = console s @ [InvalidMove a c]
          \<and> tick (stepLoop page b speed (pre @ a # c # post) s) = tick s + length pre
          \<and> console (finish page (stepLoop page b speed (pre @ a # c # post) s))
              = console s @ [InvalidMove a c, SequenceCompleted]
                  @ (if game_won (page (tick s + length pre + 1)) then [Victory] else []))
     \<and> (solution b = pre @ a # c # post \<longrightarrow>
          events (solvePuzzle page b speed s)
            = events (solvePuzzle page (b\<lparr>solution := pre @ [a]\<rparr>) speed s))
     \<and> (solution b = pre @ a # c # post \<and> all_adjacent b (pre @ [a])
          \<and> board_ready (page (tick s))
          \<and> hd (pre @ [a]) \<in> set (cell_idxs (page (tick s + 1))) \<longrightarrow>
          console (solvePuzzle page b speed s)
            = console s @ [InvalidMove a c, SequenceCompleted]
                @ (if game_won (page (tick s + length pre + 3)) then [Victory] else []))"
proof -
  have cut: "events (stepLoop page b speed (pre @ a # c # post) s)
           = events (stepLoop page b speed (pre @ [a]) s)"
    using assms by (rule stepLoop_cut_events)
  have "length (events (stepLoop page b speed (pre @ [a]) s)) \<le> length (events s) + 2 * length pre"
    using stepLoop_events_length [of page b speed "pre @ [a]" s] by simp
  then have bound: "length (events (stepLoop page b speed (pre @ a # c # post) s))
           \<le> length (events s) + 2 * length pre"
    using cut by simp
  have loop: "console (stepLoop page b speed (pre @ a # c # post) t) = console t @ [InvalidMove a c]
      \<and> tick (stepLoop page b speed (pre @ a # c # post) t) = tick t + length pre"
    if adj: "all_adjacent b (pre @ [a])" for t
    using stepLoop_cut_report [OF assms adj, of page speed post t]
      stepLoop_adjacent [OF adj, of page speed t]
    by (simp add: report_def)
  have fin: "console (finish page (stepLoop page b speed (pre @ a # c # post) t))
              = console t @ [InvalidMove a c, SequenceCompleted]
                  @ (if game_won (page (tick t + length pre + 1)) then [Victory] else [])"
    if adj: "all_adjacent b (pre @ [a])" for t
    using loop [OF adj, of t] by (simp add: console_finish)
  have whole: "console (solvePuzzle page b speed s)
            = console s @ [InvalidMove a c, SequenceCompleted]
                @ (if game_won (page (tick s + length pre + 3)) then [Victory] else [])"
    if sol: "solution b = pre @ a # c # post" and adj: "all_adjacent b (pre @ [a])"
      and rdy: "board_ready (page (tick s))"
      and cell: "hd (pre @ [a]) \<in> set (cell_idxs (page (tick s + 1)))"
  proof -
    obtain rest where l: "pre @ a # c # post = hd (pre @ [a]) # rest"
      by (cases pre) auto
    let ?s3 = "sleep 300 (dispatch [Click (hd (pre @ [a]))] (sleep 200 (dispatch [Focus] s)))"
    have eq: "solvePuzzle page b speed s
        = finish page (stepLoop page b speed (pre @ a # c # post) ?s3)"
      using solvePuzzle_ready [where rest = rest and b = b and page = page and s = s
          and startCell = "hd (pre @ [a])" and speed = speed] sol l rdy cell
      by simp
    have c3: "console ?s3 = console s"
      by (simp add: sleep_def dispatch_def)
    have t3: "tick ?s3 + length pre + 1 = tick s + length pre + 3"
      by (simp add: sleep_def dispatch_def)
    show ?thesis
      unfolding eq fin [OF adj, of ?s3] c3 t3 ..
  qed
  show ?thesis
    using cut bound loop fin whole solvePuzzle_cut_events [OF assms]
    by blast
qed

theorem invalid_move_stops_replay_witness:
  "getDirection \<lparr>gridSize = 3, solution = [0, 1, 3, 4]\<rparr> 1 3 = None
   \<and> events (solvePuzzle won_page \<lparr>gridSize = 3, solution = [0, 1, 3, 4]\<rparr> 100 run0)
     = [Focus, Click 0, KeyDown ArrowRight 39, KeyUp ArrowRight 39]
   \<and> console (solvePuzzle won_page \<lparr>gridSize = 3, solution = [0, 1, 3, 4]\<rparr> 100 run0)
     = [InvalidMove 1 3, SequenceCompleted, Victory]"
proof -
  have h: "getDirection \<lparr>gridSize = 3, solution = [0, 1, 3, 4]\<rparr> 1 3 = None"
    by (simp add: getDirection_valid)
  have adj: "all_adjacent \<lparr>gridSize = 3, solution = [0, 1, 3, 4]\<rparr> ([0] @ [1])"
    by (simp add: getDirection_valid)
  have short: "events (solvePuzzle won_page \<lparr>gridSize = 3, solution = [0, 1]\<rparr> 100 run0)
     = [Focus, Click 0, KeyDown ArrowRight 39, KeyUp ArrowRight 39]"
    by (simp add: solvePuzzle_def waitForGameBoard_def board_ready_def won_page_def run0_def
        Let_def sleep_def dispatch_def report_def finish_def
        getDirection_valid simulateKeyPress_def keyCode_def)
  show ?thesis
    using invalid_move_stops_replay [OF h, where pre = "[0]" and post = "[4]"
        and page = won_page and speed = 100 and s = run0] h adj short
    by (simp add: won_page_def run0_def board_ready_def)
qed

subsection \<open>Waiting for the board\<close>

lemma waitLoop_inv:
  "startTime \<le> now s \<Longrightarrow> waitLoop page startTime timeout s = (r, s') \<Longrightarrow>
     events s' = events s \<and>
     (\<exists>m. tick s' = tick s + m \<and> now s' = now s + 200 * m
        \<and> (\<forall>k<m. \<not> board_ready (page (tick s + k)))
        \<and> (if r then board_ready (page (tick s')) \<and> console s' = console s
                     \<and> now s' - startTime < timeout
            else console s' = console s @ [BoardDidNotLoad timeout]
                 \<and> timeout \<le> now s' - startTime
                 \<and> (m = 0 \<or> now s' - startTime < timeout + 200)))"
proof (induction page startTime timeout s arbitrary: r s' rule: waitLoop.induct)
  case (1 page startTime timeout s)
  show ?case
  proof (cases "now s - startTime < timeout")
    case False
    then have "r = False" and "s' = report (BoardDidNotLoad timeout) s"
      using "1.prems"(2) by (simp_all add: waitLoop.simps [of page startTime timeout s])
    then show ?thesis using False by (simp add: report_def)
  next
    case True
    show ?thesis
    proof (cases "board_ready (page (tick s))")
      case True
      then have "r = True" and "s' = s"
        using "1.prems"(2) \<open>now s - startTime < timeout\<close>
        by (simp_all add: waitLoop.simps [of page startTime timeout s])
      then show ?thesis using True \<open>now s - startTime < timeout\<close> by simp
    next
      case False
      have rec: "waitLoop page startTime timeout (sleep 200 s) = (r, s')"
        using "1.prems"(2) False \<open>now s - startTime < timeout\<close>
        by (simp add: waitLoop.simps [of page startTime timeout s])
      have le: "startTime \<le> now (sleep 200 s)"
        using "1.prems"(1) by (simp add: sleep_def)
      from "1.IH" [OF \<open>now s - startTime < timeout\<close> False le rec]
      obtain m where ev: "events s' = events (sleep 200 s)"
        and t: "tick s' = tick (sleep 200 s) + m"
        and n: "now s' = now (sleep 200 s) + 200 * m"
        and nr: "\<forall>k<m. \<not> board_ready (page (tick (sleep 200 s) + k))"
        and fin: "if r then board_ready (page (tick s')) \<and> console s' = console (sleep 200 s)
                     \<and> now s' - startTime < timeout
            else console s' = console (sleep 200 s) @ [BoardDidNotLoad timeout]
                 \<and> timeout \<le> now s' - startTime
                 \<and> (m = 0 \<or> now s' - startTime < timeout + 200)"
        by blast
      have nr': "\<forall>k<Suc m. \<not> board_ready (page (tick s + k))"
      proof (intro allI impI)
        fix k assume "k < Suc m"
        show "\<not> board_ready (page (tick s + k))"
        proof (cases k)
          case 0 then show ?thesis using False by simp
        next
          case (Suc j)
          then have "j < m" using \<open>k < Suc m\<close> by simp
          then show ?thesis using nr Suc by (simp add: sleep_def)
        qed
      qed
      have fin': "if r then board_ready (page (tick s')) \<and> console s' = console s
                     \<and> now s' - startTime < timeout
            else console s' = console s @ [BoardDidNotLoad timeout]
                 \<and> timeout \<le> now s' - startTime
                 \<and> (Suc m = 0 \<or> now s' - startTime < timeout + 200)"
        using fin n \<open>now s - startTime < timeout\<close> "1.prems"(1)
        by (cases r) (auto simp add: sleep_def)
      have "tick s' = tick s + Suc m \<and> now s' = now s + 200 * Suc m"
        using t n by (simp add: sleep_def)
      then show ?thesis using ev nr' fin' by (intro conjI exI [of _ "Suc m"]) (simp_all add: sleep_def)
    qed
  qed
qed

lemma waitForGameBoard_timeout:
  assumes "waitForGameBoard page 10000 s = (False, s1)"
  shows "events s1 = events s \<and> tick s1 = tick s + 50
       \<and> console s1 = console s @ [BoardDidNotLoad 10000]
       \<and> (\<forall>k<50. \<not> board_ready (page (tick s + k)))"
proof -
  have w: "waitLoop page (now s) 10000 s = (False, s1)"
    using assms by (simp add: waitForGameBoard_def split: if_splits)
  from waitLoop_inv [OF le_refl w]
  obtain m where ev: "events s1 = events s" and t: "tick s1 = tick s + m"
    and n: "now s1 = now s + 200 * m"
    and nr: "\<forall>k<m. \<not> board_ready (page (tick s + k))"
    and c: "console s1 = console s @ [BoardDidNotLoad 10000]"
    and lo: "10000 \<le> now s1 - now s"
    and hi: "m = 0 \<or> now s1 - now s < 10000 + 200"
    by auto
  have "m = 50" using n lo hi by auto
  then show ?thesis using ev t nr c by simp
qed

lemma waitForGameBoard_never_ready:
  assumes "\<forall>k<50. \<not> board_ready (page (tick s + k))"
  shows "fst (waitForGameBoard page 10000 s) = False"
proof (rule ccontr)
  assume "fst (waitForGameBoard page 10000 s) \<noteq> False"
  then obtain s1 where r: "waitForGameBoard page 10000 s = (True, s1)"
    by (cases "waitForGameBoard page 10000 s") auto
  have n0: "\<not> board_ready (page (tick s))" using assms by (metis add.right_neutral zero_less_numeral)
  then have w: "waitLoop page (now s) 10000 s = (True, s1)"
    using r by (simp add: waitForGameBoard_def)
  from waitLoop_inv [OF le_refl w]
  obtain m where t: "tick s1 = tick s + m" and n: "now s1 = now s + 200 * m"
    and rd: "board_ready (page (tick s1))" and lt: "now s1 - now s < 10000"
    by auto
  have "m < 50" using n lt by simp
  then show False using assms t rd by simp
qed

lemma late_wait: "waitForGameBoard late_page 10000 run0
  = (False, \<lparr>now = 10000, tick = 50, events = [], console = [BoardDidNotLoad 10000]\<rparr>)"
  by (simp add: waitForGameBoard_def waitLoop.simps late_page_def board_ready_def sleep_def
      report_def run0_def)

text \<open>
  Claim C5, as stated, fails. On a page whose board root is present but whose cells appear
  only after the 10000 ms wait has ended, \<^verbatim>\<open>waitForGameBoard\<close> returns \<^verbatim>\<open>false\<close>,
  and \<^verbatim>\<open>solvePuzzle\<close>, which does not read that result, finds the board root, focuses
  it, finds the start cell 200 ms later, clicks it and presses a key.
\<close>

theorem late_board_counterexample:
  "fst (waitForGameBoard late_page 10000 run0) = False
   \<and> events (solvePuzzle late_page \<lparr>gridSize = 2, solution = [0, 1]\<rparr> 100 run0)
     = [Focus, Click 0, KeyDown ArrowRight 39, KeyUp ArrowRight 39]"
  by (simp add: solvePuzzle_def late_wait Let_def sleep_def dispatch_def report_def finish_def
      late_page_def getDirection_valid simulateKeyPress_def
      keyCode_def)

text \<open>
  Claim C5, amended. If the board is ready at none of the fifty polls of the 10000 ms wait
  (one every 200 ms) and, when the wait has ended, the board root is absent or, 200 ms
  later, no element carries the index of the start cell, then \<^verbatim>\<open>waitForGameBoard\<close>
  returns \<^verbatim>\<open>false\<close> and \<^verbatim>\<open>solvePuzzle\<close> returns after the time-out warning and one
  error line (board not found, or start cell not found), having dispatched no click and no
  key event.
\<close>

theorem solvePuzzle_board_never_ready:
  assumes never: "\<forall>k<50. \<not> board_ready (page (tick s + k))"
    and sol: "solution b = startCell # rest"
    and late: "\<not> trail_board (page (tick s + 50))
               \<or> startCell \<notin> set (cell_idxs (page (tick s + 51)))"
  shows "fst (waitForGameBoard page 10000 s) = False
     \<and> filter is_input (events (solvePuzzle page b speed s)) = filter is_input (events s)
     \<and> console (solvePuzzle page b speed s)
       = console s @ [BoardDidNotLoad 10000,
                      if trail_board (page (tick s + 50)) then StartCellNotFound
                      else BoardNotFound]"
proof -
  have f: "fst (waitForGameBoard page 10000 s) = False"
    using never by (rule waitForGameBoard_never_ready)
  then obtain s1 where w: "waitForGameBoard page 10000 s = (False, s1)"
    by (cases "waitForGameBoard page 10000 s") auto
  have s1: "events s1 = events s" "tick s1 = tick s + 50"
    "console s1 = console s @ [BoardDidNotLoad 10000]"
    using waitForGameBoard_timeout [OF w] by simp_all
  show ?thesis
  proof (cases "trail_board (page (tick s + 50))")
    case False
    then have "solvePuzzle page b speed s = report BoardNotFound s1"
      by (simp add: solvePuzzle_def sol w s1)
    then show ?thesis using f s1 False by (simp add: report_def)
  next
    case True
    then have "startCell \<notin> set (cell_idxs (page (51 + tick s)))"
      using late by (simp add: add.commute)
    then have "solvePuzzle page b speed s
             = report StartCellNotFound (sleep 200 (dispatch [Focus] s1))"
      using True by (simp add: solvePuzzle_def sol w s1 Let_def sleep_def dispatch_def)
    then show ?thesis
      using f s1 True by (simp add: report_def sleep_def dispatch_def is_input_def)
  qed
qed

theorem solvePuzzle_board_never_ready_witness:
  "filter is_input (events (solvePuzzle stuck_page \<lparr>gridSize = 2, solution = [0, 1]\<rparr> 100 run0)) = []
   \<and> console (solvePuzzle stuck_page \<lparr>gridSize = 2, solution = [0, 1]\<rparr> 100 run0)
     = [BoardDidNotLoad 10000, StartCellNotFound]"
  using solvePuzzle_board_never_ready
    [where page = stuck_page and s = run0 and b = "\<lparr>gridSize = 2, solution = [0, 1]\<rparr>"
       and startCell = 0 and rest = "[1]" and speed = 100]
  by (simp add: stuck_page_def run0_def board_ready_def)

subsection \<open>Key presses\<close>

text \<open>
  Claim C10. When no element matches \<^verbatim>\<open>[data-trail-grid]\<close> at a step,
  \<^verbatim>\<open>simulateKeyPress\<close> dispatches nothing and returns \<^verbatim>\<open>false\<close>, and the loop of
  \<^verbatim>\<open>solvePuzzle\<close> goes on with the next pair after the inter-step delay: nothing is
  logged and the run is not ended.
\<close>

theorem missing_grid_is_skipped:
  assumes "\<not> trail_grid (page (tick s))" and "getDirection b a c = Some k"
  shows "simulateKeyPress page k s = (False, s)
     \<and> stepLoop page b speed (a # c # rest) s = stepLoop page b speed (c # rest) (sleep speed s)"
  using assms by (simp add: simulateKeyPress_def)

theorem missing_grid_is_skipped_witness:
  "simulateKeyPress gridless_page ArrowRight run0 = (False, run0)
   \<and> stepLoop gridless_page \<lparr>gridSize = 2, solution = [0, 1, 3]\<rparr> 100 [0, 1, 3] run0
     = \<lparr>now = 200, tick = 2, events = [], console = []\<rparr>"
  using missing_grid_is_skipped
    [where page = gridless_page and s = run0 and b = "\<lparr>gridSize = 2, solution = [0, 1, 3]\<rparr>"
       and a = 0 and c = 1 and k = ArrowRight and speed = 100 and rest = "[3]"]
    missing_grid_is_skipped
    [where page = gridless_page and s = "sleep 100 run0"
       and b = "\<lparr>gridSize = 2, solution = [0, 1, 3]\<rparr>"
       and a = 1 and c = 3 and k = ArrowDown and speed = 100 and rest = "[]"]
  by (simp add: gridless_page_def run0_def getDirection_valid sleep_def)

text \<open>
  Claim C9. For the solution 0, 1, 2, 7, 12 on a 5 by 5 grid the directions of the
  consecutive pairs are right, right, down, down, and on a ready board \<^verbatim>\<open>solvePuzzle\<close>
  dispatches exactly the key-down and key-up pairs of these four moves after the focus and
  the click on cell 0.
\<close>

theorem moves_example:
  "map (\<lambda>(fromCell, toCell). getDirection \<lparr>gridSize = 5, solution = [0, 1, 2, 7, 12]\<rparr> fromCell toCell)
       (zip [0, 1, 2, 7, 12] (tl [0, 1, 2, 7, 12]))
     = [Some ArrowRight, Some ArrowRight, Some ArrowDown, Some ArrowDown]
   \<and> events (solvePuzzle ready_page \<lparr>gridSize = 5, solution = [0, 1, 2, 7, 12]\<rparr> 100 run0)
     = [Focus, Click 0,
        KeyDown ArrowRight 39, KeyUp ArrowRight 39, KeyDown ArrowRight 39, KeyUp ArrowRight 39,
        KeyDown ArrowDown 40, KeyUp ArrowDown 40, KeyDown ArrowDown 40, KeyUp ArrowDown 40]"
  by (simp add: solvePuzzle_def waitForGameBoard_def board_ready_def ready_page_def run0_def
      Let_def sleep_def dispatch_def report_def finish_def
      getDirection_valid simulateKeyPress_def keyCode_def)

section \<open>Properties of the endpoint discoverer\<close>

lemma onTimeout_world:
  "window_fetch (snd (onTimeout f cap w)) = f
   \<and> trace (snd (onTimeout f cap w)) = trace w @ [SetFetch f]
   \<and> apiUrl (snd (onTimeout f cap w)) = apiUrl w
   \<and> (\<exists>u. fst (onTimeout f cap w) = Inr u)"
  by (cases cap) (simp_all add: onTimeout_def)

lemma onTimeout_empty: "fst (onTimeout f [] w) = Inr constructor_apiUrl"
  by (simp add: onTimeout_def constructor_apiUrl_def)

lemma interceptAndRefresh_calls:
  assumes "all_calls p = Some calls"
  shows "\<exists>mid. interceptAndRefresh p w =
            onTimeout (window_fetch w) (foldl intercept [] calls)
              (w\<lparr>window_fetch := Interceptor (window_fetch w),
                  trace := trace w @ [SetFetch (Interceptor (window_fetch w))] @ mid\<rparr>)
          \<and> (\<forall>f. SetFetch f \<notin> set mid)"
proof (cases "affordance p")
  case None
  then have "calls = window_calls p" using assms by (simp add: all_calls_def)
  then show ?thesis using None
    by (intro exI [of _ "map (Forwarded (window_fetch w)) (window_calls p)"])
       (auto simp add: interceptAndRefresh_def Let_def)
next
  case (Some btn)
  then obtain clickCalls where c: "click_effect btn = Calls clickCalls"
    and calls: "calls = clickCalls @ window_calls p"
    using assms by (auto simp add: all_calls_def split: click_effect.splits)
  show ?thesis using Some c calls
    by (intro exI [of _ "Activate (textContent btn)
          # map (Forwarded (window_fetch w)) (clickCalls @ window_calls p)"])
       (auto simp add: interceptAndRefresh_def Let_def)
qed

lemma interception_restored_once:
  assumes "all_calls p = Some calls"
  shows "\<exists>mid u. trace (snd (interceptAndRefresh p w))
            = trace w @ [SetFetch (Interceptor (window_fetch w))] @ mid @ [SetFetch (window_fetch w)]
          \<and> (\<forall>f. SetFetch f \<notin> set mid)
          \<and> window_fetch (snd (interceptAndRefresh p w)) = window_fetch w
          \<and> fst (interceptAndRefresh p w) = Inr u"
proof -
  obtain mid where i: "interceptAndRefresh p w =
            onTimeout (window_fetch w) (foldl intercept [] calls)
              (w\<lparr>window_fetch := Interceptor (window_fetch w),
                  trace := trace w @ [SetFetch (Interceptor (window_fetch w))] @ mid\<rparr>)"
    and m: "\<forall>f. SetFetch f \<notin> set mid"
    using interceptAndRefresh_calls [OF assms] by blast
  show ?thesis
    unfolding i using m onTimeout_world
      [of "window_fetch w" "foldl intercept [] calls"
          "w\<lparr>window_fetch := Interceptor (window_fetch w),
                  trace := trace w @ [SetFetch (Interceptor (window_fetch w))] @ mid\<rparr>"]
    by auto
qed

text \<open>
  On the runs that reach the observation window: if the passive scan returns nothing and no
  call of the window carries a string URL with both markers, \<^verbatim>\<open>detectApiUrl\<close> resolves
  with the hard-coded literal, which is the value the constructor gives
  \<^verbatim>\<open>this.apiUrl\<close>, and \<^verbatim>\<open>window.fetch\<close> is again the function found before the call.
\<close>

lemma fallback_when_nothing_captured:
  assumes "findGameApiUrl p = None"
    and "all_calls p = Some calls"
    and "foldl intercept [] calls = []"
  shows "fst (detectApiUrl p w) = Inr constructor_apiUrl
       \<and> window_fetch (snd (detectApiUrl p w)) = window_fetch w"
proof -
  obtain mid where i: "interceptAndRefresh p w =
            onTimeout (window_fetch w) (foldl intercept [] calls)
              (w\<lparr>window_fetch := Interceptor (window_fetch w),
                  trace := trace w @ [SetFetch (Interceptor (window_fetch w))] @ mid\<rparr>)"
    using interceptAndRefresh_calls [OF assms(2)] by blast
  have d: "detectApiUrl p w = interceptAndRefresh p w"
    using assms(1) by (simp add: detectApiUrl_def)
  show ?thesis
    unfolding d i assms(3) by (simp add: onTimeout_empty onTimeout_world)
qed

lemma fallback_on_quiet_page:
  "findGameApiUrl quiet_page = None
   \<and> detectApiUrl quiet_page world0
     = (Inr ''/voyager/api/graphql?includeWebMetadata=true&variables=(gameTypeId:6)&queryId=voyagerIdentityDashGames.b13494b14a45c551e881ca8aa820dff0'',
        world0\<lparr>trace :=
          [SetFetch (Interceptor (PageFetch 0)), Activate ''Play again'',
           Forwarded (PageFetch 0) (UrlString ''/voyager/api/graphql?queryId=me''),
           Forwarded (PageFetch 0) NotAString,
           Forwarded (PageFetch 0) (UrlString ''/li/track''),
           SetFetch (PageFetch 0)]\<rparr>)"
proof -
  have f: "findGameApiUrl quiet_page = None"
    by (simp add: findGameApiUrl_def quiet_page_def isGameApiUrl_def)
  have a: "all_calls quiet_page
      = Some [UrlString ''/voyager/api/graphql?queryId=me'', NotAString, UrlString ''/li/track'']"
    by (simp add: all_calls_def affordance_def quiet_page_def)
  have c: "foldl intercept []
      [UrlString ''/voyager/api/graphql?queryId=me'', NotAString, UrlString ''/li/track''] = []"
    by (simp add: isGameApiUrl_def)
  show ?thesis
    using fallback_when_nothing_captured [OF f a c, of world0] f
    by (simp add: detectApiUrl_def interceptAndRefresh_def affordance_def quiet_page_def
        onTimeout_def world0_def isGameApiUrl_def Let_def)
qed

text \<open>
  Claim C1 asks for the hard-coded default and for the restored \<^verbatim>\<open>window.fetch\<close>
  whenever the passive scan finds nothing and the interception captures nothing. On a page
  whose refresh control has no \<^verbatim>\<open>click\<close> method both conditions hold, yet the executor
  throws before the timer is set: the promise is rejected instead of resolving with the
  default, and \<^verbatim>\<open>window.fetch\<close> is still the wrapper around the original function.
\<close>

theorem fallback_missed_when_click_throws:
  "findGameApiUrl foreign_refresh_page = None
   \<and> foldl intercept [] (window_calls foreign_refresh_page) = []
   \<and> fst (detectApiUrl foreign_refresh_page world0) = Inl TypeError
   \<and> window_fetch (snd (detectApiUrl foreign_refresh_page world0))
       = Interceptor (window_fetch world0)"
  by (simp add: detectApiUrl_def findGameApiUrl_def interceptAndRefresh_def affordance_def
      foreign_refresh_page_def world0_def Let_def)

text \<open>
  Claim C3. If the passive scan finds a matching resource-timing entry, whose path is not
  empty, \<^verbatim>\<open>detectApiUrl\<close> returns its path and query at once: \<^verbatim>\<open>window.fetch\<close> is
  not assigned, no element is clicked, and only \<^verbatim>\<open>this.apiUrl\<close> changes.
\<close>

theorem passive_match_skips_interception:
  assumes "perf_entries p = Some perfEntries"
    and "find isGameApiUrl perfEntries = Some name"
    and "url_parse p name = Some (pathname, search)"
    and "pathname \<noteq> []"
  shows "findGameApiUrl p = Some (pathname @ search)
       \<and> detectApiUrl p w = (Inr (pathname @ search), w\<lparr>apiUrl := pathname @ search\<rparr>)
       \<and> window_fetch (snd (detectApiUrl p w)) = window_fetch w
       \<and> trace (snd (detectApiUrl p w)) = trace w"
  using assms by (simp add: findGameApiUrl_def detectApiUrl_def)

theorem passive_match_skips_interception_witness:
  "detectApiUrl visited_page world0
     = (Inr ''/voyager/api/graphql?variables=(gameTypeId:6)&queryId=q1'',
        \<lparr>window_fetch = PageFetch 0,
         apiUrl = ''/voyager/api/graphql?variables=(gameTypeId:6)&queryId=q1'',
         trace = []\<rparr>)"
  using passive_match_skips_interception
    [where p = visited_page and w = world0
       and perfEntries = "[''https://www.linkedin.com/li/track'',
         ''https://www.linkedin.com/voyager/api/graphql?variables=(gameTypeId:6)&queryId=q1'']"
       and name = "''https://www.linkedin.com/voyager/api/graphql?variables=(gameTypeId:6)&queryId=q1''"
       and pathname = "''/voyager/api/graphql''"
       and search = "''?variables=(gameTypeId:6)&queryId=q1''"]
  by (simp add: visited_page_def world0_def isGameApiUrl_def)

text \<open>
  Claim C2 asks that \<^verbatim>\<open>window.fetch\<close> be restored and that \<^verbatim>\<open>detectApiUrl\<close> never
  raise, also when activating the affordance throws. On a page whose refresh control has no
  \<^verbatim>\<open>click\<close> method the call throws inside the executor: the promise is rejected with the
  \<^verbatim>\<open>TypeError\<close>, the timer is never set, and \<^verbatim>\<open>window.fetch\<close> remains the wrapper.
  (Without an exception the restoration happens once, as \<open>interception_restored_once\<close>
  shows.)
\<close>

theorem click_throws_leaves_interceptor:
  "detectApiUrl foreign_refresh_page world0
     = (Inl TypeError,
        \<lparr>window_fetch = Interceptor (PageFetch 0), apiUrl = constructor_apiUrl,
         trace = [SetFetch (Interceptor (PageFetch 0))]\<rparr>)
   \<and> window_fetch world0 = PageFetch 0"
  by (simp add: detectApiUrl_def findGameApiUrl_def interceptAndRefresh_def affordance_def
      foreign_refresh_page_def world0_def Let_def)

section \<open>Properties of the puzzle retriever\<close>

lemma get_prop_nullish:
  "get_prop v k = (if nullish v then Inl TypeError else Inr (field v k))"
  by (cases v) (simp_all add: nullish_def field_def)

lemma get_first_nullish:
  "get_first v = (if nullish v then Inl TypeError else Inr (first_of v))"
  by (cases v) (simp_all add: nullish_def first_of_def)

lemma field_nullish: "nullish v \<Longrightarrow> field v k = Undefined"
  by (auto simp add: nullish_def field_def)

lemma first_of_nullish: "nullish v \<Longrightarrow> first_of v = Undefined"
  by (auto simp add: nullish_def first_of_def)

lemma nullish_Undefined: "nullish Undefined"
  by (simp add: nullish_def)

text \<open>
  Claim C6, amended. On a success response with a JSON body, \<^verbatim>\<open>fetchPuzzle\<close> returns
  \<^verbatim>\<open>data.included[0].gamePuzzle.trailGamePuzzle\<close>, and it fails, with the
  \<^verbatim>\<open>TypeError\<close> of a property read, exactly when \<^verbatim>\<open>included\<close>, its first element, the
  puzzle container, the game-specific object or its \<^verbatim>\<open>solution\<close> is missing
  (\<^verbatim>\<open>undefined\<close> or \<^verbatim>\<open>null\<close>).
\<close>

theorem fetchPuzzle_missing_field:
  assumes "resp_ok response" and "resp_json response = Some data"
  shows "fst (fetchPuzzle (Responded response) this)
       = (if container_missing data \<or> nullish (field (envelope_puzzle data) ''solution'')
          then Inl TypeError else Inr (envelope_puzzle data))"
proof -
  let ?inc = "field data ''included''"
  let ?gd = "first_of ?inc"
  let ?gp = "field ?gd ''gamePuzzle''"
  let ?pz = "field ?gp ''trailGamePuzzle''"
  have pz: "envelope_puzzle data = ?pz" by (simp add: envelope_puzzle_def)
  have chain: "nullish data \<Longrightarrow> nullish ?inc" "nullish ?inc \<Longrightarrow> nullish ?gd"
    "nullish ?gd \<Longrightarrow> nullish ?gp" "nullish ?gp \<Longrightarrow> nullish ?pz"
    "nullish ?pz \<Longrightarrow> nullish (field ?pz ''solution'')"
    by (simp_all add: field_nullish first_of_nullish nullish_Undefined)
  show ?thesis
  proof (cases "container_missing data \<or> nullish (field ?pz ''solution'')")
    case False
    then have ok: "\<not> nullish data" "\<not> nullish ?inc" "\<not> nullish ?gd" "\<not> nullish ?gp"
      "\<not> nullish ?pz" "\<not> nullish (field ?pz ''solution'')"
      using chain by (auto simp add: container_missing_def pz)
    show ?thesis
      using False ok assms
      by (simp add: fetchPuzzle_def get_prop_nullish get_first_nullish pz)
  next
    case True
    then have n: "nullish (field ?pz ''solution'')"
      using chain by (auto simp add: container_missing_def pz)
    show ?thesis
      using True n assms
      by (simp add: fetchPuzzle_def get_prop_nullish get_first_nullish pz)
  qed
qed

theorem fetchPuzzle_missing_field_witness:
  "fst (fetchPuzzle (ok_response no_container_body) this0) = Inl TypeError"
  using fetchPuzzle_missing_field
    [where response = "\<lparr>resp_ok = True, resp_status = 200, resp_text = [],
                         resp_json = Some no_container_body\<rparr>"
       and data = no_container_body and this = this0]
  by (simp add: ok_response_def no_container_body_def container_missing_def envelope_puzzle_def
      field_def first_of_def nullish_def)

text \<open>
  Claim C6, as stated, fails. An envelope whose puzzle object has a \<^verbatim>\<open>solution\<close> and no
  \<^verbatim>\<open>gridSize\<close> is accepted: \<^verbatim>\<open>fetchPuzzle\<close> returns the puzzle and leaves
  \<^verbatim>\<open>this.gridSize\<close> \<^verbatim>\<open>undefined\<close>.
\<close>

theorem missing_gridSize_counterexample:
  "field (envelope_puzzle no_gridSize_body) ''gridSize'' = Undefined
   \<and> fetchPuzzle (ok_response no_gridSize_body) this0
     = (Inr (Obj [(''solution'', Arr [Num 0, Num 1])]),
        \<lparr>this_puzzle = Obj [(''solution'', Arr [Num 0, Num 1])],
         this_gridSize = Undefined,
         this_solution = Arr [Num 0, Num 1]\<rparr>)"
  by (simp add: fetchPuzzle_def ok_response_def no_gridSize_body_def this0_def
      envelope_puzzle_def field_def first_of_def)

end
